theory Spec2Isabelle
  imports Complex_Main "HOL-Library.Sublist"
begin

section \<open>JavaScript primitives used by CanvasWriter\<close>

text \<open>
  JavaScript numbers are modelled as reals (rounding, NaN and the infinities are left
  out), strings as lists of characters (one per code unit, which is what \<open>length\<close>
  and \<open>slice\<close> count), and an option value that may be missing as an \<open>option\<close>.
  The operator \<open>v || d\<close> takes the default when the value is missing or falsy
  (zero, the empty string).
\<close>

definition truthy_num :: "real option \<Rightarrow> bool" where
  "truthy_num v = (case v of None \<Rightarrow> False | Some n \<Rightarrow> n \<noteq> 0)"

definition truthy_str :: "string option \<Rightarrow> bool" where
  "truthy_str v = (case v of None \<Rightarrow> False | Some s \<Rightarrow> s \<noteq> [])"

definition num_or :: "real option \<Rightarrow> real \<Rightarrow> real" where
  "num_or v d = (case v of None \<Rightarrow> d | Some n \<Rightarrow> if n = 0 then d else n)"

definition str_or :: "string option \<Rightarrow> string \<Rightarrow> string" where
  "str_or v d = (case v of None \<Rightarrow> d | Some s \<Rightarrow> if s = [] then d else s)"

text \<open>
  \<open>xs.slice(start, end)\<close> of strings and arrays: a negative index counts from the
  end, and both indices are clamped to the length.
\<close>

definition js_slice :: "int \<Rightarrow> int \<Rightarrow> 'a list \<Rightarrow> 'a list" where
  "js_slice start end xs =
     (let n = int (length xs);
          from = (if start < 0 then max (n + start) 0 else min start n);
          to = (if end < 0 then max (n + end) 0 else min end n)
      in take (nat (to - from)) (drop (nat from) xs))"

definition js_slice_from :: "int \<Rightarrow> 'a list \<Rightarrow> 'a list" where
  "js_slice_from start xs = js_slice start (int (length xs)) xs"

text \<open>\<open>xs.join(sep)\<close> and \<open>s.split(sep)\<close> for a one-character separator.\<close>

fun js_join :: "'a list \<Rightarrow> 'a list list \<Rightarrow> 'a list" where
  "js_join sep [] = []"
| "js_join sep [x] = x"
| "js_join sep (x # y # ys) = x @ sep @ js_join sep (y # ys)"

fun js_split :: "'a \<Rightarrow> 'a list \<Rightarrow> 'a list list" where
  "js_split sep [] = [[]]"
| "js_split sep (c # cs) =
     (if c = sep then [] # js_split sep cs
      else (case js_split sep cs of w # ws \<Rightarrow> (c # w) # ws | [] \<Rightarrow> [[c]]))"

definition newline :: string where
  "newline = [CHR 0x0A]"

section \<open>Data model\<close>

text \<open>The part of the surface's \<open>measureText\<close> result that the writer reads.\<close>

record TextMetrics =
  width :: real
  actualBoundingBoxLeft :: real
  actualBoundingBoxAscent :: real
  emHeightDescent :: real

text \<open>A fill or stroke style: a colour string, or a gradient or pattern object.\<close>

datatype style = Color string | Paint nat

definition truthy_style :: "style option \<Rightarrow> bool" where
  "truthy_style v = (case v of None \<Rightarrow> False | Some (Color s) \<Rightarrow> s \<noteq> [] | Some (Paint p) \<Rightarrow> True)"

definition style_or :: "style option \<Rightarrow> style \<Rightarrow> style" where
  "style_or v d = (case v of None \<Rightarrow> d | Some s \<Rightarrow> if truthy_style (Some s) then s else d)"

record WriteOptions =
  opt_x :: "real option"
  opt_y :: "real option"
  opt_spacing :: "real option"
  opt_font :: "string option"
  opt_style :: "style option"
  opt_align :: "string option"
  opt_maxLines :: "real option"
  opt_shadowColor :: "string option"
  opt_shadowX :: "real option"
  opt_shadowY :: "real option"
  opt_shadowBlur :: "real option"

record StrokeOptions =
  stroke_style :: "style option"
  stroke_width :: "real option"
  stroke_join :: "string option"

text \<open>The default arguments \<open>options = {}\<close> and \<open>strokeOptions = {}\<close>.\<close>

definition no_options :: WriteOptions where
  "no_options = \<lparr>opt_x = None, opt_y = None, opt_spacing = None, opt_font = None,
     opt_style = None, opt_align = None, opt_maxLines = None, opt_shadowColor = None,
     opt_shadowX = None, opt_shadowY = None, opt_shadowBlur = None\<rparr>"

definition no_stroke :: StrokeOptions where
  "no_stroke = \<lparr>stroke_style = None, stroke_width = None, stroke_join = None\<rparr>"

text \<open>One entry of \<open>this.texts\<close>.\<close>

record LineRecord =
  lr_text :: string
  lr_xSpace :: real
  lr_ySpace :: real
  lr_options :: WriteOptions
  lr_strokeOptions :: StrokeOptions

type_synonym buffer = "nat list"

text \<open>
  The drawing surface is an external collaborator. Every call and property assignment
  the writer makes on its \<open>ctx\<close> is a \<open>ctx_call\<close>; the surface is given by how it
  executes a call on its state \<open>'c\<close>, by the properties and measurements the writer
  reads back, and by the size of the canvas.
\<close>

datatype ctx_call =
    Save
  | Restore
  | SetFont string
  | SetFillStyle style
  | SetTextAlign string
  | SetShadowColor "string option"
  | SetShadowOffsetX real
  | SetShadowOffsetY real
  | SetShadowBlur real
  | SetStrokeStyle "style option"
  | SetLineWidth "real option"
  | SetLineJoin "string option"
  | StrokeText string real real
  | FillText string real real
  | FillRect real real real real
  | DrawImage buffer real real real real

record 'c surface =
  exec :: "ctx_call \<Rightarrow> 'c \<Rightarrow> 'c"
  textAlign :: "'c \<Rightarrow> string"
  lineWidth :: "'c \<Rightarrow> real"
  measureText :: "'c \<Rightarrow> string \<Rightarrow> TextMetrics"
  canvas_width :: real
  canvas_height :: real

text \<open>The writer: its context, the cursor \<open>line\<close> and the log \<open>texts\<close>.\<close>

record 'c CanvasWriter =
  ctx :: 'c
  line :: real
  texts :: "LineRecord list"

section \<open>Operations of CanvasWriter\<close>

definition newCanvasWriter :: "'c surface \<Rightarrow> 'c \<Rightarrow> 'c CanvasWriter" where
  "newCanvasWriter S c = \<lparr>ctx = exec S Save c, line = 0, texts = []\<rparr>"

definition lastWrite :: "'c CanvasWriter \<Rightarrow> LineRecord option" where
  "lastWrite w = (case js_slice_from (- 1) (texts w) of [] \<Rightarrow> None | r # rs \<Rightarrow> Some r)"

definition lineCount :: "'c CanvasWriter \<Rightarrow> nat" where
  "lineCount w = length (texts w)"

definition drawBackground :: "'c surface \<Rightarrow> style \<Rightarrow> 'c CanvasWriter \<Rightarrow> 'c CanvasWriter" where
  "drawBackground S sty w =
     w\<lparr>ctx := fold (exec S)
        [Save, SetFillStyle sty, FillRect 0 0 (canvas_width S) (canvas_height S), Restore]
        (ctx w)\<rparr>"

definition drawBackgroundImage :: "'c surface \<Rightarrow> buffer \<Rightarrow> 'c CanvasWriter \<Rightarrow> 'c CanvasWriter" where
  "drawBackgroundImage S buf w =
     w\<lparr>ctx := exec S (DrawImage buf 0 0 (canvas_width S) (canvas_height S)) (ctx w)\<rparr>"

text \<open>Lines 81 to 92 of \<open>writeText\<close>: the property assignments, in the source's order.\<close>

definition configure :: "'c surface \<Rightarrow> WriteOptions \<Rightarrow> StrokeOptions \<Rightarrow> 'c \<Rightarrow> 'c" where
  "configure S options strokeOptions c =
     fold (exec S)
       [SetFont (str_or (opt_font options) ''16px serif''),
        SetFillStyle (style_or (opt_style options) (Color ''white'')),
        SetTextAlign (str_or (opt_align options) ''start''),
        SetShadowColor (opt_shadowColor options),
        SetShadowOffsetX (num_or (opt_shadowX options) 0),
        SetShadowOffsetY (num_or (opt_shadowY options) 0),
        SetShadowBlur (num_or (opt_shadowBlur options) 0),
        SetStrokeStyle (stroke_style strokeOptions),
        SetLineWidth (stroke_width strokeOptions),
        SetLineJoin (stroke_join strokeOptions)]
       c"

definition writeText ::
  "'c surface \<Rightarrow> string \<Rightarrow> WriteOptions \<Rightarrow> StrokeOptions \<Rightarrow> 'c CanvasWriter \<Rightarrow> 'c CanvasWriter" where
  "writeText S text options strokeOptions w =
     (let c0 = exec S Save (ctx w);
          maxLines = num_or (opt_maxLines options) 0
      in if real (lineCount w) \<ge> maxLines \<and> maxLines > 0 then w\<lparr>ctx := c0\<rparr>
         else
           let offsetX = num_or (opt_x options) 5;
               offsetY = num_or (opt_y options) 5;
               spacing = (if line w = 0 then 0 else num_or (opt_spacing options) 0);
               c = configure S options strokeOptions c0;
               measure = measureText S c text
           in if truthy_style (stroke_style strokeOptions) \<or> truthy_num (stroke_width strokeOptions)
                   \<or> truthy_str (stroke_join strokeOptions)
              then
                let xSpace = (if textAlign S c = ''center'' then 0
                              else actualBoundingBoxLeft measure + lineWidth S c) + offsetX;
                    ySpace = line w + actualBoundingBoxAscent measure + lineWidth S c + spacing + offsetY
                in w\<lparr>ctx := exec S (FillText text xSpace ySpace) (exec S (StrokeText text xSpace ySpace) c),
                     texts := texts w @ [\<lparr>lr_text = text, lr_xSpace = xSpace, lr_ySpace = ySpace,
                                           lr_options = options, lr_strokeOptions = strokeOptions\<rparr>],
                     line := line w + (actualBoundingBoxAscent measure + emHeightDescent measure
                                       + lineWidth S c + spacing)\<rparr>
              else
                let xSpace = (if textAlign S c = ''center'' then 0
                              else actualBoundingBoxLeft measure) + offsetX;
                    ySpace = line w + actualBoundingBoxAscent measure + spacing + offsetY
                in w\<lparr>ctx := exec S Restore (exec S (FillText text xSpace ySpace) c),
                     texts := texts w @ [\<lparr>lr_text = text, lr_xSpace = xSpace, lr_ySpace = ySpace,
                                           lr_options = options, lr_strokeOptions = strokeOptions\<rparr>],
                     line := line w + (actualBoundingBoxAscent measure + emHeightDescent measure
                                       + spacing)\<rparr>)"

text \<open>The argument \<open>lines\<close>: one string, split at newlines, or an array of strings.\<close>

datatype lines = Str string | Arr "string list"

definition split_lines :: "lines \<Rightarrow> string list" where
  "split_lines ls = (case ls of Str s \<Rightarrow> js_split (CHR 0x0A) s | Arr a \<Rightarrow> a)"

definition writeLines ::
  "'c surface \<Rightarrow> lines \<Rightarrow> WriteOptions \<Rightarrow> StrokeOptions \<Rightarrow> 'c CanvasWriter \<Rightarrow> 'c CanvasWriter" where
  "writeLines S ls options strokeOptions w =
     fold (\<lambda>t. writeText S t options strokeOptions) (split_lines ls) w"

subsection \<open>Hard wrap\<close>

text \<open>
  The \<open>while\<close> loop shared by both \<open>reduceToFit\<close> closures: it drops the last
  character of \<open>section\<close> while the section is too wide and longer than one character,
  counting in \<open>j\<close>. The measuring function \<open>mw\<close> is \<open>ctx.measureText(_).width\<close>
  at the font set on entry.
\<close>

function shrink :: "(string \<Rightarrow> real) \<Rightarrow> real \<Rightarrow> string \<Rightarrow> int \<Rightarrow> string \<times> int" where
  "shrink mw maxWidth section j =
     (if mw section > maxWidth \<and> length section > 1
      then shrink mw maxWidth (js_slice 0 (- 1) section) (j + 1)
      else (section, j))"
  by pat_completeness auto
termination
  by (relation "measure (\<lambda>(mw, maxWidth, section, j). length section)")
     (auto simp: js_slice_def)

declare shrink.simps [simp del]

text \<open>
  \<open>reduceToFit\<close> of \<open>writeWrapped\<close>. The recursion need not end, so the function
  is partial: \<open>None\<close> is the call that never returns (the JavaScript engine ends it
  with a RangeError when the stack is exhausted).
\<close>

partial_function (option) reduceToFit ::
  "(string \<Rightarrow> real) \<Rightarrow> real \<Rightarrow> string list \<Rightarrow> string \<Rightarrow> string list option" where
  "reduceToFit mw maxWidth results text =
     (if mw text > maxWidth
      then (case shrink mw maxWidth text 1 of
              (section, j) \<Rightarrow>
                reduceToFit mw maxWidth (results @ [section]) (js_slice_from (- j + 1) text))
      else Some (results @ [text]))"

declare reduceToFit.simps [code]

definition font_of :: "WriteOptions \<Rightarrow> string" where
  "font_of options = str_or (opt_font options) ''16px serif''"

definition writeWrapped ::
  "'c surface \<Rightarrow> string \<Rightarrow> real option \<Rightarrow> WriteOptions \<Rightarrow> StrokeOptions
     \<Rightarrow> 'c CanvasWriter \<Rightarrow> 'c CanvasWriter option" where
  "writeWrapped S text maxWidth options strokeOptions w =
     (let c = exec S (SetFont (font_of options)) (ctx w);
          maxW = (case maxWidth of None \<Rightarrow> canvas_width S | Some m \<Rightarrow> m)
      in case reduceToFit (\<lambda>t. width (measureText S c t)) maxW [] text of
           None \<Rightarrow> None
         | Some results \<Rightarrow> Some (writeLines S (Arr results) options strokeOptions (w\<lparr>ctx := c\<rparr>)))"

text \<open>\<open>forEach\<close> over calls that may not return.\<close>

fun forEach_opt :: "('a \<Rightarrow> 's \<Rightarrow> 's option) \<Rightarrow> 'a list \<Rightarrow> 's \<Rightarrow> 's option" where
  "forEach_opt f [] s = Some s"
| "forEach_opt f (x # xs) s = (case f x s of None \<Rightarrow> None | Some s' \<Rightarrow> forEach_opt f xs s')"

definition writeWrappedLines ::
  "'c surface \<Rightarrow> lines \<Rightarrow> real option \<Rightarrow> WriteOptions \<Rightarrow> StrokeOptions
     \<Rightarrow> 'c CanvasWriter \<Rightarrow> 'c CanvasWriter option" where
  "writeWrappedLines S ls maxWidth options strokeOptions w =
     forEach_opt (\<lambda>t. writeWrapped S t maxWidth options strokeOptions) (split_lines ls) w"

subsection \<open>Word wrap\<close>

text \<open>
  \<open>reduceToFit\<close> of \<open>writeWordWrapped\<close>: it pushes the fitting prefix and returns
  the rest of the word instead of recursing.
\<close>

definition reduceToFit_word ::
  "(string \<Rightarrow> real) \<Rightarrow> real \<Rightarrow> string list \<Rightarrow> string \<Rightarrow> string list \<times> string" where
  "reduceToFit_word mw maxWidth results text =
     (if mw text > maxWidth
      then (case shrink mw maxWidth text 1 of
              (section, j) \<Rightarrow> (results @ [section], js_slice_from (- j + 1) text))
      else (results, text))"

text \<open>
  The \<open>while\<close> loop of \<open>splitToFit\<close>. It leaves either through the \<open>return\<close>
  inside it, when a single word is still too wide (\<open>SingleWord\<close>), or through its
  condition (\<open>Settled\<close>). \<open>section.pop()\<close> is only reached with at least two words.
\<close>

datatype loop_exit = SingleWord "string list" "string list" | Settled "string list" "string list"

lemma js_join_long_not_Nil: "Suc 0 < length (js_join sep xs) \<Longrightarrow> xs \<noteq> []"
  by auto

function wordLoop ::
  "(string \<Rightarrow> real) \<Rightarrow> real \<Rightarrow> string list \<Rightarrow> string list \<Rightarrow> loop_exit" where
  "wordLoop mw maxWidth section remainder =
     (if mw (js_join '' '' section) > maxWidth \<and> length (js_join '' '' section) > 1
      then (if length section = 1 then SingleWord section remainder
            else wordLoop mw maxWidth (butlast section) (last section # remainder))
      else Settled section remainder)"
  by pat_completeness auto
termination
  by (relation "measure (\<lambda>(mw, maxWidth, section, remainder). length section)")
     (auto dest: js_join_long_not_Nil)

declare wordLoop.simps [simp del]

lemma js_join_split: "js_join [sep] (js_split sep t) = t"
proof (induction t)
  case Nil
  then show ?case by simp
next
  case (Cons c cs)
  then show ?case
    by (cases "js_split sep cs"; cases "tl (js_split sep cs)") (auto split: list.splits)
qed

lemma js_split_not_Nil: "js_split sep t \<noteq> []"
  by (induction t) (auto split: list.splits)

lemma js_split_no_sep: "w \<in> set (js_split sep t) \<Longrightarrow> sep \<notin> set w"
  by (induction t arbitrary: w) (auto split: list.splits if_splits)

lemma length_js_join_append:
  "xs \<noteq> [] \<Longrightarrow> ys \<noteq> [] \<Longrightarrow>
   length (js_join sep (xs @ ys)) = length (js_join sep xs) + length sep + length (js_join sep ys)"
proof (induction sep xs rule: js_join.induct)
  case (1 sep)
  then show ?case by simp
next
  case (2 sep x)
  then show ?case by (cases ys) auto
next
  case (3 sep x y ys)
  then show ?case by simp
qed

text \<open>What the word loop hands over: the words are only moved, and the section is never empty.\<close>

lemma wordLoop_inv:
  "wordLoop mw maxWidth sec remainder = r \<Longrightarrow> sec \<noteq> [] \<Longrightarrow>
   (case r of
      SingleWord s' r' \<Rightarrow> s' @ r' = sec @ remainder \<and> length s' = 1
         \<and> mw (js_join '' '' s') > maxWidth \<and> length (js_join '' '' s') > 1
    | Settled s' r' \<Rightarrow> s' @ r' = sec @ remainder \<and> s' \<noteq> []
         \<and> (mw (js_join '' '' s') \<le> maxWidth \<or> length (js_join '' '' s') \<le> 1))"
proof (induction mw maxWidth sec remainder arbitrary: r rule: wordLoop.induct)
  case (1 mw maxWidth sec remainder)
  show ?case
  proof (cases "mw (js_join '' '' sec) > maxWidth \<and> length (js_join '' '' sec) > 1")
    case False
    with 1(2,3) show ?thesis by (subst (asm) wordLoop.simps) auto
  next
    case True
    show ?thesis
    proof (cases "length sec = 1")
      case True
      with \<open>mw (js_join '' '' sec) > maxWidth \<and> length (js_join '' '' sec) > 1\<close> 1(2)
      show ?thesis by (subst (asm) wordLoop.simps) auto
    next
      case False
      with 1(3) have ne: "butlast sec \<noteq> []"
        by (cases sec rule: rev_cases) (auto simp: butlast_append)
      from False True 1(2)
      have "wordLoop mw maxWidth (butlast sec) (last sec # remainder) = r"
        by (subst (asm) wordLoop.simps) simp
      from 1(1)[OF True False this ne] 1(3) show ?thesis
        by (auto split: loop_exit.splits)
    qed
  qed
qed

text \<open>What the character loop returns: a prefix of its input, shorter by \<open>j' - j\<close>.\<close>

lemma shrink_result:
  "shrink mw maxWidth s j = (s', j') \<Longrightarrow>
   j \<le> j' \<and> int (length s') + (j' - j) = int (length s) \<and> s' = take (length s') s
   \<and> (s \<noteq> [] \<longrightarrow> s' \<noteq> []) \<and> (mw s > maxWidth \<and> length s > 1 \<longrightarrow> j < j')"
proof (induction mw maxWidth s j arbitrary: s' j' rule: shrink.induct)
  case (1 mw maxWidth s j)
  show ?case
  proof (cases "mw s > maxWidth \<and> length s > 1")
    case False
    with 1(2) show ?thesis by (subst (asm) shrink.simps) auto
  next
    case True
    have "nat (int (length s) - 1) = length s - Suc 0" by arith
    then have sl: "js_slice 0 (- 1) s = butlast s"
      using True by (simp add: js_slice_def butlast_conv_take max_def)
    from True 1(2) have "shrink mw maxWidth (butlast s) (j + 1) = (s', j')"
      by (subst (asm) shrink.simps) (simp add: sl)
    from 1(1)[OF True, unfolded sl, OF this] True show ?thesis
      by (auto simp: butlast_conv_take min_def split: if_splits)
  qed
qed

text \<open>
  On a text that is too wide and longer than one character, the emitted section and
  \<open>text.slice(-j + 1)\<close> cut the text in two non-empty parts.
\<close>

lemma shrink_slice:
  assumes "mw t > maxWidth" "length t > 1" "shrink mw maxWidth t 1 = (s', j')"
  shows "t = s' @ js_slice_from (- j' + 1) t \<and> s' \<noteq> [] \<and> js_slice_from (- j' + 1) t \<noteq> []"
proof -
  from shrink_result[OF assms(3)] assms(1,2)
  have p: "1 < j'" "int (length s') + (j' - 1) = int (length t)" "s' = take (length s') t" "s' \<noteq> []"
    by auto
  have n: "nat (int (length t) + (1 - j')) = length s'" using p(1,2) by arith
  have pos: "\<not> int (length t) + (1 - j') \<le> 0" using p(2,4) by (cases s') auto
  have ex: "js_slice_from (- j' + 1) t = drop (length s') t"
    using p(1) n pos by (simp add: js_slice_from_def js_slice_def max_def Let_def)
  have "t = take (length s') t @ drop (length s') t" by simp
  then have "t = s' @ drop (length s') t" using p(3) by simp
  moreover have "length (drop (length s') t) = length t - length s'" by simp
  then have "drop (length s') t \<noteq> []" using p(1,2) by auto
  ultimately show ?thesis using ex p(4) by simp
qed

lemma reduceToFit_word_split:
  assumes "mw t > maxWidth" "length t > 1" "reduceToFit_word mw maxWidth rs t = (rs', extra)"
  shows "\<exists>pre. rs' = rs @ [pre] \<and> t = pre @ extra \<and> pre \<noteq> [] \<and> extra \<noteq> []"
proof -
  obtain s' j' where sh: "shrink mw maxWidth t 1 = (s', j')" by force
  from assms(1,3) sh have r: "rs' = rs @ [s']" "extra = js_slice_from (- j' + 1) t"
    by (auto simp: reduceToFit_word_def)
  from shrink_slice[OF assms(1,2) sh] r show ?thesis by blast
qed

text \<open>
  The measure of \<open>splitToFit\<close>: the text gets shorter, except when a word without
  spaces is cut after its first character and a space is appended to the rest.
\<close>

definition wrap_measure :: "string \<Rightarrow> nat" where
  "wrap_measure t = 2 * length t + (if CHR '' '' \<in> set t then 0 else 1)"

function splitToFit ::
  "(string \<Rightarrow> real) \<Rightarrow> real \<Rightarrow> string list \<Rightarrow> string \<Rightarrow> string list" where
  "splitToFit mw maxWidth results text =
     (if text = [] then results
      else if mw (js_join '' '' (js_split CHR '' '' text)) > maxWidth
      then (case wordLoop mw maxWidth (js_split CHR '' '' text) [] of
              SingleWord section remainder \<Rightarrow>
                (case reduceToFit_word mw maxWidth results (js_join '' '' section) of
                   (results', extra) \<Rightarrow>
                     splitToFit mw maxWidth results' (extra @ '' '' @ js_join '' '' remainder))
            | Settled section remainder \<Rightarrow>
                splitToFit mw maxWidth (results @ [js_join '' '' section]) (js_join '' '' remainder))
      else results @ [text])"
  by pat_completeness auto
termination
proof (relation "measure (\<lambda>(mw, maxWidth, results, t). wrap_measure t)", goal_cases)
  case 1
  show ?case by simp
next
  case (2 mw maxWidth results t sec rem rs' extra)
  from wordLoop_inv[OF 2(3) js_split_not_Nil]
  have inv: "sec @ rem = js_split CHR '' '' t" "length sec = 1"
    "mw (js_join '' '' sec) > maxWidth" "length (js_join '' '' sec) > 1"
    by auto
  define w where "w = js_join '' '' sec"
  have sec: "sec = [w]" using inv(2) w_def by (cases sec) auto
  from reduceToFit_word_split[OF inv(3,4) 2(4)[symmetric]]
  obtain pre where pre: "js_join '' '' sec = pre @ extra" "pre \<noteq> []" "extra \<noteq> []" by blast
  then have lw: "length extra < length w" using w_def by simp
  have t: "t = js_join '' '' (sec @ rem)" using inv(1) js_join_split[of "CHR '' ''" t] by simp
  show ?case
  proof (cases "rem = []")
    case True
    then have "t = w" using t sec by simp
    moreover have "w \<in> set (sec @ rem)" using sec by simp
    then have "w \<in> set (js_split CHR '' '' t)" using inv(1) by simp
    then have "CHR '' '' \<notin> set w" by (rule js_split_no_sep)
    ultimately have "CHR '' '' \<notin> set t" by simp
    then show ?thesis using \<open>t = w\<close> lw True by (simp add: wrap_measure_def)
  next
    case False
    with length_js_join_append[of sec rem "'' ''"] sec t
    have "length t = length w + 1 + length (js_join '' '' rem)" by simp
    then show ?thesis using lw by (simp add: wrap_measure_def)
  qed
next
  case (3 mw maxWidth results t sec rem)
  from wordLoop_inv[OF 3(3) js_split_not_Nil]
  have inv: "sec @ rem = js_split CHR '' '' t" "sec \<noteq> []" by auto
  have t: "t = js_join '' '' (sec @ rem)" using inv(1) js_join_split[of "CHR '' ''" t] by simp
  show ?case
  proof (cases "rem = []")
    case True
    then show ?thesis using 3(1) by (cases t) (simp_all add: wrap_measure_def)
  next
    case False
    with length_js_join_append[of sec rem "'' ''"] inv(2) t
    have "length t = length (js_join '' '' sec) + 1 + length (js_join '' '' rem)" by simp
    then show ?thesis by (simp add: wrap_measure_def)
  qed
qed

declare splitToFit.simps [simp del]

text \<open>The equations that evaluate the wrapping functions on a concrete text.\<close>

lemmas wrap_eval = splitToFit.simps wordLoop.simps shrink.simps reduceToFit_word_def
  reduceToFit.simps js_slice_from_def js_slice_def

text \<open>
  The words of a text are the parts between its spaces. A piece of an output line is
  in order when it is a whole word of the input, or a fragment of a word of the input
  that alone measures wider than \<open>maxWidth\<close>.
\<close>

definition piece_ok :: "(string \<Rightarrow> real) \<Rightarrow> real \<Rightarrow> string \<Rightarrow> string \<Rightarrow> bool" where
  "piece_ok mw maxWidth text p =
     (p \<in> set (js_split CHR '' '' text)
      \<or> (\<exists>w \<in> set (js_split CHR '' '' text). mw w > maxWidth \<and> sublist p w))"

definition writeWordWrapped ::
  "'c surface \<Rightarrow> string \<Rightarrow> real option \<Rightarrow> WriteOptions \<Rightarrow> StrokeOptions
     \<Rightarrow> 'c CanvasWriter \<Rightarrow> 'c CanvasWriter" where
  "writeWordWrapped S text maxWidth options strokeOptions w =
     (let c = exec S (SetFont (font_of options)) (ctx w);
          maxW = (case maxWidth of None \<Rightarrow> canvas_width S | Some m \<Rightarrow> m);
          results = splitToFit (\<lambda>t. width (measureText S c t)) maxW [] text
      in writeLines S (Arr results) options strokeOptions (w\<lparr>ctx := c\<rparr>))"

definition writeWordWrappedLines ::
  "'c surface \<Rightarrow> lines \<Rightarrow> real option \<Rightarrow> WriteOptions \<Rightarrow> StrokeOptions
     \<Rightarrow> 'c CanvasWriter \<Rightarrow> 'c CanvasWriter" where
  "writeWordWrappedLines S ls maxWidth options strokeOptions w =
     fold (\<lambda>t. writeWordWrapped S t maxWidth options strokeOptions) (split_lines ls) w"

text \<open>The method \<open>write\<close>, the shortcut to \<open>writeWordWrappedLines\<close>.\<close>

definition write_shortcut ::
  "'c surface \<Rightarrow> lines \<Rightarrow> real option \<Rightarrow> WriteOptions \<Rightarrow> StrokeOptions
     \<Rightarrow> 'c CanvasWriter \<Rightarrow> 'c CanvasWriter" where
  "write_shortcut S ls maxWidth options strokeOptions w =
     writeWordWrappedLines S ls maxWidth options strokeOptions w"

subsection \<open>Fit check, clone and string conversion\<close>

definition isFitting :: "'c surface \<Rightarrow> 'c CanvasWriter \<Rightarrow> bool" where
  "isFitting S w = (line w < canvas_height S)"

text \<open>
  \<open>cloneFrom\<close> reads the source's log once (\<open>texts.slice(0, limit)\<close>, the limit
  defaulting to the log's length) and replays it on this writer.
\<close>

definition cloneFrom ::
  "'c surface \<Rightarrow> 'd CanvasWriter \<Rightarrow> int option \<Rightarrow> 'c CanvasWriter \<Rightarrow> 'c CanvasWriter" where
  "cloneFrom S source limit w =
     (let toClone = js_slice 0 (case limit of None \<Rightarrow> int (length (texts source)) | Some l \<Rightarrow> l)
                      (texts source)
      in fold (\<lambda>t. writeText S (lr_text t) (lr_options t) (lr_strokeOptions t)) toClone w)"

definition toString :: "'c CanvasWriter \<Rightarrow> string" where
  "toString w = js_join newline (map lr_text (texts w))"

subsection \<open>Writers as objects\<close>

text \<open>
  Writers are JavaScript objects, and \<open>cloneFrom\<close> is given a reference that may
  be the receiver itself. The heap maps a reference to a writer object (its canvas, its
  cursor and its log) and a canvas to the state of its context.
\<close>

record writer_obj =
  obj_canvas :: nat
  obj_line :: real
  obj_texts :: "LineRecord list"

record 'c heap =
  contexts :: "nat \<Rightarrow> 'c"
  objects :: "nat \<Rightarrow> writer_obj option"

definition view :: "'c heap \<Rightarrow> writer_obj \<Rightarrow> 'c CanvasWriter" where
  "view h ob = \<lparr>ctx = contexts h (obj_canvas ob), line = obj_line ob, texts = obj_texts ob\<rparr>"

text \<open>\<open>this.cloneFrom(source, limit)\<close> on the heap; \<open>None\<close> is a dangling reference.\<close>

definition cloneFrom_ref ::
  "'c surface \<Rightarrow> nat \<Rightarrow> nat \<Rightarrow> int option \<Rightarrow> 'c heap \<Rightarrow> 'c heap option" where
  "cloneFrom_ref S this source limit h =
     (case objects h this of None \<Rightarrow> None
      | Some d \<Rightarrow>
         (case objects h source of None \<Rightarrow> None
          | Some s \<Rightarrow>
              (let w' = cloneFrom S (view h s) limit (view h d)
               in Some (h\<lparr>contexts := (contexts h)(obj_canvas d := ctx w'),
                          objects := (objects h)(this \<mapsto> d\<lparr>obj_line := line w', obj_texts := texts w'\<rparr>)\<rparr>))))"

subsection \<open>Sequences of operations\<close>

text \<open>
  The methods of a writer, as operations on its state. \<open>CloneSelf\<close> is \<open>cloneFrom\<close>
  with the receiver as source; \<open>Inspect\<close> stands for the methods that only read
  (\<open>lastWrite\<close>, \<open>lineCount\<close>, \<open>isFitting\<close>, \<open>toString\<close> and the exports).
  An operation that never returns has no result.
\<close>

datatype 'c operation =
    DrawBackground style
  | DrawBackgroundImage buffer
  | WriteText string WriteOptions StrokeOptions
  | WriteLines lines WriteOptions StrokeOptions
  | WriteWrapped string "real option" WriteOptions StrokeOptions
  | WriteWrappedLines lines "real option" WriteOptions StrokeOptions
  | WriteWordWrapped string "real option" WriteOptions StrokeOptions
  | WriteWordWrappedLines lines "real option" WriteOptions StrokeOptions
  | Write lines "real option" WriteOptions StrokeOptions
  | CloneFrom "'c CanvasWriter" "int option"
  | CloneSelf "int option"
  | Inspect

fun perform :: "'c surface \<Rightarrow> 'c operation \<Rightarrow> 'c CanvasWriter \<Rightarrow> 'c CanvasWriter option" where
  "perform S (DrawBackground sty) w = Some (drawBackground S sty w)"
| "perform S (DrawBackgroundImage buf) w = Some (drawBackgroundImage S buf w)"
| "perform S (WriteText t options strokeOptions) w = Some (writeText S t options strokeOptions w)"
| "perform S (WriteLines ls options strokeOptions) w = Some (writeLines S ls options strokeOptions w)"
| "perform S (WriteWrapped t maxWidth options strokeOptions) w =
     writeWrapped S t maxWidth options strokeOptions w"
| "perform S (WriteWrappedLines ls maxWidth options strokeOptions) w =
     writeWrappedLines S ls maxWidth options strokeOptions w"
| "perform S (WriteWordWrapped t maxWidth options strokeOptions) w =
     Some (writeWordWrapped S t maxWidth options strokeOptions w)"
| "perform S (WriteWordWrappedLines ls maxWidth options strokeOptions) w =
     Some (writeWordWrappedLines S ls maxWidth options strokeOptions w)"
| "perform S (Write ls maxWidth options strokeOptions) w =
     Some (write_shortcut S ls maxWidth options strokeOptions w)"
| "perform S (CloneFrom source limit) w = Some (cloneFrom S source limit w)"
| "perform S (CloneSelf limit) w = Some (cloneFrom S w limit w)"
| "perform S Inspect w = Some w"

definition run :: "'c surface \<Rightarrow> 'c operation list \<Rightarrow> 'c CanvasWriter \<Rightarrow> 'c CanvasWriter option" where
  "run S ops w = forEach_opt (perform S) ops w"

text \<open>
  The conditions under which no write moves the cursor back: the spacing of every
  options value in use is not negative, and on the states the surface can reach
  (an invariant \<open>I\<close> of its calls) line widths and line heights are not negative.
\<close>

definition nonneg_spacing :: "WriteOptions \<Rightarrow> bool" where
  "nonneg_spacing options = (0 \<le> num_or (opt_spacing options) 0)"

definition log_ok :: "'c CanvasWriter \<Rightarrow> bool" where
  "log_ok w = list_all (\<lambda>r. nonneg_spacing (lr_options r)) (texts w)"

fun op_ok :: "'c operation \<Rightarrow> bool" where
  "op_ok (WriteText t options strokeOptions) = nonneg_spacing options"
| "op_ok (WriteLines ls options strokeOptions) = nonneg_spacing options"
| "op_ok (WriteWrapped t maxWidth options strokeOptions) = nonneg_spacing options"
| "op_ok (WriteWrappedLines ls maxWidth options strokeOptions) = nonneg_spacing options"
| "op_ok (WriteWordWrapped t maxWidth options strokeOptions) = nonneg_spacing options"
| "op_ok (WriteWordWrappedLines ls maxWidth options strokeOptions) = nonneg_spacing options"
| "op_ok (Write ls maxWidth options strokeOptions) = nonneg_spacing options"
| "op_ok (CloneFrom source limit) = log_ok source"
| "op_ok _ = True"

definition surface_inv :: "'c surface \<Rightarrow> ('c \<Rightarrow> bool) \<Rightarrow> bool" where
  "surface_inv S I =
     ((\<forall>call c. I c \<longrightarrow> I (exec S call c))
      \<and> (\<forall>c. I c \<longrightarrow> 0 \<le> lineWidth S c)
      \<and> (\<forall>c t. I c \<longrightarrow> 0 \<le> actualBoundingBoxAscent (measureText S c t)
                               + emHeightDescent (measureText S c t)))"

definition good :: "('c \<Rightarrow> bool) \<Rightarrow> 'c CanvasWriter \<Rightarrow> bool" where
  "good I w = (I (ctx w) \<and> log_ok w)"

section \<open>An example surface\<close>

text \<open>
  A surface for concrete runs. It records every call, keeps \<open>textAlign\<close> and
  \<open>lineWidth\<close> as a canvas does (an assignment of an unknown alignment or of a width
  that is not positive is ignored; \<open>save\<close> and \<open>restore\<close> push and pop them), and
  measures every character 8 units wide, with left bearing 1, ascent 12 and descent 4.
\<close>

record sim_ctx =
  sim_textAlign :: string
  sim_lineWidth :: real
  sim_saved :: "(string \<times> real) list"
  sim_calls :: "ctx_call list"

definition sim_exec :: "ctx_call \<Rightarrow> sim_ctx \<Rightarrow> sim_ctx" where
  "sim_exec call c =
     (let c' = (case call of
                  Save \<Rightarrow> c\<lparr>sim_saved := (sim_textAlign c, sim_lineWidth c) # sim_saved c\<rparr>
                | Restore \<Rightarrow>
                    (case sim_saved c of [] \<Rightarrow> c
                     | (a, lw) # rest \<Rightarrow> c\<lparr>sim_textAlign := a, sim_lineWidth := lw, sim_saved := rest\<rparr>)
                | SetTextAlign a \<Rightarrow>
                    (if a \<in> set [''start'', ''end'', ''left'', ''right'', ''center'']
                     then c\<lparr>sim_textAlign := a\<rparr> else c)
                | SetLineWidth v \<Rightarrow>
                    (case v of None \<Rightarrow> c | Some n \<Rightarrow> if n > 0 then c\<lparr>sim_lineWidth := n\<rparr> else c)
                | _ \<Rightarrow> c)
      in c'\<lparr>sim_calls := sim_calls c' @ [call]\<rparr>)"

definition sim_measure :: "string \<Rightarrow> TextMetrics" where
  "sim_measure t = \<lparr>width = 8 * real (length t), actualBoundingBoxLeft = 1,
     actualBoundingBoxAscent = 12, emHeightDescent = 4\<rparr>"

definition sim_surface :: "sim_ctx surface" where
  "sim_surface = \<lparr>exec = sim_exec, textAlign = sim_textAlign, lineWidth = sim_lineWidth,
     measureText = (\<lambda>c. sim_measure), canvas_width = 200, canvas_height = 200\<rparr>"

definition sim_fresh :: sim_ctx where
  "sim_fresh = \<lparr>sim_textAlign = ''start'', sim_lineWidth = 1, sim_saved = [], sim_calls = []\<rparr>"

text \<open>
  Three writers on it: a new one, one after \<open>writeText('Hello')\<close>, and one after
  \<open>writeLines(['Hello', 'World', 'again'])\<close>; and a stroke of width 2.
\<close>

definition fresh_writer :: "sim_ctx CanvasWriter" where
  "fresh_writer = newCanvasWriter sim_surface sim_fresh"

definition hello :: "sim_ctx CanvasWriter" where
  "hello = writeText sim_surface ''Hello'' no_options no_stroke fresh_writer"

definition hello3 :: "sim_ctx CanvasWriter" where
  "hello3 = writeLines sim_surface (Arr [''Hello'', ''World'', ''again'']) no_options no_stroke fresh_writer"

definition red_stroke :: StrokeOptions where
  "red_stroke = \<lparr>stroke_style = Some (Color ''red''), stroke_width = Some 2, stroke_join = None\<rparr>"

text \<open>A heap with the new writer at reference 0 and the writer \<open>hello\<close> at reference 1.\<close>

definition two_writers :: "sim_ctx heap" where
  "two_writers = \<lparr>contexts = (\<lambda>k. if k = 0 then ctx fresh_writer else ctx hello),
     objects = (\<lambda>r. if r = 0 then Some \<lparr>obj_canvas = 0, obj_line = line fresh_writer,
                                          obj_texts = texts fresh_writer\<rparr>
                    else if r = 1 then Some \<lparr>obj_canvas = 1, obj_line = line hello,
                                               obj_texts = texts hello\<rparr>
                    else None)\<rparr>"

text \<open>
  The invariant of the example surface (line widths, current and saved, are not
  negative), and a run: a background, a word-wrapped text with spacing 2, a
  hard-wrapped text with a stroke, and a clone of the writer's own first line.
\<close>

definition sim_inv :: "sim_ctx \<Rightarrow> bool" where
  "sim_inv c = (0 \<le> sim_lineWidth c \<and> list_all (\<lambda>p. 0 \<le> snd p) (sim_saved c))"

definition session :: "sim_ctx operation list" where
  "session = [DrawBackground (Color ''black''),
              Write (Str ''Hello world'') (Some 50) (no_options\<lparr>opt_spacing := Some 2\<rparr>) no_stroke,
              WriteWrapped ''Hello'' (Some 16) no_options red_stroke,
              CloneSelf (Some 1)]"

lemmas sim_defs = sim_surface_def sim_exec_def sim_measure_def sim_fresh_def fresh_writer_def
  newCanvasWriter_def writeText_def configure_def lineCount_def num_or_def str_or_def style_or_def
  truthy_num_def truthy_str_def truthy_style_def no_options_def no_stroke_def Let_def

lemma hello_eval:
  "hello = \<lparr>ctx = \<lparr>sim_textAlign = ''start'', sim_lineWidth = 1, sim_saved = [(''start'', 1)],
       sim_calls = [Save, Save, SetFont ''16px serif'', SetFillStyle (Color ''white''),
          SetTextAlign ''start'', SetShadowColor None, SetShadowOffsetX 0, SetShadowOffsetY 0,
          SetShadowBlur 0, SetStrokeStyle None, SetLineWidth None, SetLineJoin None,
          FillText ''Hello'' 6 17, Restore]\<rparr>,
     line = 16,
     texts = [\<lparr>lr_text = ''Hello'', lr_xSpace = 6, lr_ySpace = 17, lr_options = no_options,
                lr_strokeOptions = no_stroke\<rparr>]\<rparr>"
  by (simp add: hello_def sim_defs)

lemma hello3_eval:
  "line hello3 = 48 \<and>
   texts hello3 = [\<lparr>lr_text = ''Hello'', lr_xSpace = 6, lr_ySpace = 17, lr_options = no_options,
                lr_strokeOptions = no_stroke\<rparr>,
               \<lparr>lr_text = ''World'', lr_xSpace = 6, lr_ySpace = 33, lr_options = no_options,
                lr_strokeOptions = no_stroke\<rparr>,
               \<lparr>lr_text = ''again'', lr_xSpace = 6, lr_ySpace = 49, lr_options = no_options,
                lr_strokeOptions = no_stroke\<rparr>]"
  by (simp add: hello3_def writeLines_def split_lines_def sim_defs)

section \<open>Hard wrap: where the recursion ends and where it does not\<close>

text \<open>
  A call of \<open>reduceToFit\<close> on a text of at most one character that is wider than
  \<open>maxWidth\<close> skips the loop (\<open>j\<close> stays 1), pushes the text and recurses on
  \<open>text.slice(0)\<close>, the same text: no such call returns.
\<close>

lemma reduceToFit_Some_not_stuck:
  assumes "reduceToFit mw maxWidth results t = Some y"
  shows "\<not> (length t \<le> 1 \<and> mw t > maxWidth)"
proof (rule reduceToFit.raw_induct
    [where P = "\<lambda>mw maxWidth results t y. \<not> (length t \<le> 1 \<and> mw t > maxWidth)",
      OF _ assms], goal_cases)
  case (1 f mw maxWidth results t y)
  show ?case
  proof
    assume stuck: "length t \<le> 1 \<and> mw t > maxWidth"
    then have s: "shrink mw maxWidth t 1 = (t, 1)" by (subst shrink.simps) simp
    have sl: "js_slice_from (- 1 + 1) t = t"
      by (simp add: js_slice_from_def js_slice_def)
    from 1(2) stuck s sl have "f mw maxWidth (results @ [t]) t = Some y" by simp
    from 1(1)[OF this] stuck show False by simp
  qed
qed

lemma reduceToFit_stuck:
  "length t \<le> 1 \<Longrightarrow> mw t > maxWidth \<Longrightarrow> reduceToFit mw maxWidth results t = None"
  using reduceToFit_Some_not_stuck[of mw maxWidth results t]
  by (cases "reduceToFit mw maxWidth results t") auto

text \<open>
  When every text of at most one character fits, each step cuts off a non-empty
  section and recurses on a strictly shorter, non-empty rest, and the call returns.
\<close>

lemma reduceToFit_returns:
  assumes fit: "\<And>s. length s \<le> 1 \<Longrightarrow> mw s \<le> maxWidth"
  shows "\<exists>y. reduceToFit mw maxWidth results t = Some y"
proof (induction "length t" arbitrary: t results rule: less_induct)
  case less
  show ?case
  proof (cases "mw t > maxWidth")
    case False
    then show ?thesis by (subst reduceToFit.simps) simp
  next
    case True
    with fit[of t] have long: "length t > 1" by (cases "length t \<le> 1") auto
    obtain s' j' where sh: "shrink mw maxWidth t 1 = (s', j')" by force
    from shrink_slice[OF True long sh]
    have cut: "t = s' @ js_slice_from (- j' + 1) t" "s' \<noteq> []" by auto
    then have "length (js_slice_from (- j' + 1) t) < length t"
      by (metis length_append length_greater_0_conv less_add_same_cancel2)
    from less[OF this, of "results @ [s']"] True sh show ?thesis
      by (subst reduceToFit.simps) simp
  qed
qed

text \<open>
  Claim C1 says that the hard wrap of \<open>writeWrapped\<close> terminates for every text and
  positive \<open>maxWidth\<close>, also when a single remaining character is wider than
  \<open>maxWidth\<close>. The code does not: on the one-character text \<open>W\<close>, measured 10
  units wide, with \<open>maxWidth = 5\<close>, \<open>reduceToFit\<close> never returns.
\<close>

theorem reduceToFit_single_wide_character_never_returns:
  "reduceToFit (\<lambda>t. 10 * real (length t)) 5 [] ''W'' = None"
  by (rule reduceToFit_stuck) simp_all

section \<open>Texts that fit\<close>

text \<open>
  Claim C2, as the code has it: for every text whose measured width does not exceed
  \<open>maxWidth\<close>, the hard wrap produces exactly one line, the text itself; the word
  wrap does so for every such text that is not empty, and produces no line for the
  empty text.
\<close>

theorem fitting_text_is_one_line:
  "mw t \<le> maxWidth \<Longrightarrow>
     reduceToFit mw maxWidth [] t = Some [t]
     \<and> splitToFit mw maxWidth [] t = (if t = [] then [] else [t])"
  by (subst reduceToFit.simps, subst splitToFit.simps) (simp add: js_join_split)

theorem fitting_text_is_one_line_witness:
  "8 * real (length ''Hello'') \<le> 80
   \<and> reduceToFit (\<lambda>t. 8 * real (length t)) 80 [] ''Hello'' = Some [''Hello'']
   \<and> splitToFit (\<lambda>t. 8 * real (length t)) 80 [] ''Hello'' = [''Hello'']"
  using fitting_text_is_one_line [of "\<lambda>t. 8 * real (length t)" "''Hello''" 80] by simp

text \<open>
  The claim as stated fails for the empty text: it measures 0, less than 80, and the
  word wrap returns at \<open>if (!text) return\<close> without a line.
\<close>

theorem empty_text_word_wrap_counterexample:
  "8 * real (length '''') < 80
   \<and> splitToFit (\<lambda>t. 8 * real (length t)) 80 [] '''' \<noteq> ['''']"
  by (subst splitToFit.simps) simp

section \<open>The single-line writer\<close>

text \<open>
  Claim C4: for every positive \<open>K\<close> passed as \<open>options.maxLines\<close>, once the
  number of recorded lines has reached \<open>K\<close>, \<open>writeText\<close> with these options is
  a no-op: the log and the cursor are unchanged, and the only call on the context is
  the \<open>save\<close> at the entry of the method, so nothing is drawn.
\<close>

theorem writeText_noop_at_maxLines:
  assumes "opt_maxLines options = Some K" and "0 < K" and "K \<le> real (lineCount w)"
  shows "texts (writeText S t options strokeOptions w) = texts w
       \<and> line (writeText S t options strokeOptions w) = line w
       \<and> ctx (writeText S t options strokeOptions w) = exec S Save (ctx w)"
  using assms by (simp add: writeText_def num_or_def Let_def)

theorem writeText_noop_at_maxLines_witness:
  "opt_maxLines (no_options\<lparr>opt_maxLines := Some 1\<rparr>) = Some 1 \<and> (0::real) < 1
   \<and> 1 \<le> real (lineCount hello)
   \<and> texts (writeText sim_surface ''again'' (no_options\<lparr>opt_maxLines := Some 1\<rparr>) no_stroke hello)
       = texts hello
   \<and> line (writeText sim_surface ''again'' (no_options\<lparr>opt_maxLines := Some 1\<rparr>) no_stroke hello)
       = line hello
   \<and> ctx (writeText sim_surface ''again'' (no_options\<lparr>opt_maxLines := Some 1\<rparr>) no_stroke hello)
       = exec sim_surface Save (ctx hello)"
proof -
  have h: "opt_maxLines (no_options\<lparr>opt_maxLines := Some 1\<rparr>) = Some 1" by simp
  have c: "1 \<le> real (lineCount hello)" by (simp add: hello_eval lineCount_def)
  from writeText_noop_at_maxLines [OF h _ c, of sim_surface "''again''" no_stroke] h c
  show ?thesis by simp
qed

text \<open>
  Claim C6, as the code has it: whenever one of the three stroke options is truthy (a
  style that is not the empty string, a width that is not zero, a join that is not the
  empty string) and the call is not stopped by \<open>maxLines\<close>, \<open>writeText\<close> computes
  \<open>x = offsetX + (0 if the context's textAlign is center, else leftBearing + strokeWidth)\<close>
  and \<open>y = cursor + ascent + strokeWidth + spacing + offsetY\<close>, records the line,
  draws the stroke and then the fill at \<open>(x, y)\<close>, and advances the cursor by
  \<open>ascent + descent + strokeWidth + spacing\<close>. Here \<open>strokeWidth\<close> is the
  context's \<open>lineWidth\<close> after the assignment of \<open>strokeOptions.width\<close>, and
  \<open>spacing\<close> is zero while the cursor is zero.
\<close>

theorem writeText_with_stroke:
  assumes "truthy_style (stroke_style strokeOptions) \<or> truthy_num (stroke_width strokeOptions)
           \<or> truthy_str (stroke_join strokeOptions)"
      and "num_or (opt_maxLines options) 0 \<le> 0 \<or> real (lineCount w) < num_or (opt_maxLines options) 0"
      and "c = configure S options strokeOptions (exec S Save (ctx w))"
      and "m = measureText S c t"
      and "strokeWidth = lineWidth S c"
      and "spacing = (if line w = 0 then 0 else num_or (opt_spacing options) 0)"
      and "x = num_or (opt_x options) 5
               + (if textAlign S c = ''center'' then 0 else actualBoundingBoxLeft m + strokeWidth)"
      and "y = line w + actualBoundingBoxAscent m + strokeWidth + spacing + num_or (opt_y options) 5"
  shows "ctx (writeText S t options strokeOptions w)
           = exec S (FillText t x y) (exec S (StrokeText t x y) c)
       \<and> texts (writeText S t options strokeOptions w)
           = texts w @ [\<lparr>lr_text = t, lr_xSpace = x, lr_ySpace = y, lr_options = options,
                         lr_strokeOptions = strokeOptions\<rparr>]
       \<and> line (writeText S t options strokeOptions w)
           = line w + (actualBoundingBoxAscent m + emHeightDescent m + strokeWidth + spacing)"
proof -
  from assms(2) have nc: "\<not> (num_or (opt_maxLines options) 0 \<le> real (lineCount w)
      \<and> 0 < num_or (opt_maxLines options) 0)" by auto
  show ?thesis
    unfolding writeText_def Let_def using assms(1) nc
    by (simp add: assms(3-8) add.commute)
qed

theorem writeText_with_stroke_witness:
  "truthy_style (stroke_style red_stroke)
   \<and> texts (writeText sim_surface ''Hi'' (no_options\<lparr>opt_spacing := Some 3\<rparr>) red_stroke hello)
       = texts hello @ [\<lparr>lr_text = ''Hi'', lr_xSpace = 8, lr_ySpace = 38,
            lr_options = no_options\<lparr>opt_spacing := Some 3\<rparr>, lr_strokeOptions = red_stroke\<rparr>]
   \<and> line (writeText sim_surface ''Hi'' (no_options\<lparr>opt_spacing := Some 3\<rparr>) red_stroke hello) = 37
   \<and> sim_calls (ctx (writeText sim_surface ''Hi'' (no_options\<lparr>opt_spacing := Some 3\<rparr>) red_stroke hello))
       = sim_calls (configure sim_surface (no_options\<lparr>opt_spacing := Some 3\<rparr>) red_stroke
            (exec sim_surface Save (ctx hello))) @ [StrokeText ''Hi'' 8 38, FillText ''Hi'' 8 38]"
proof -
  have a: "truthy_style (stroke_style red_stroke) \<or> truthy_num (stroke_width red_stroke)
           \<or> truthy_str (stroke_join red_stroke)"
    by (simp add: red_stroke_def truthy_style_def)
  have b: "num_or (opt_maxLines (no_options\<lparr>opt_spacing := Some 3\<rparr>)) 0 \<le> 0
           \<or> real (lineCount hello) < num_or (opt_maxLines (no_options\<lparr>opt_spacing := Some 3\<rparr>)) 0"
    by (simp add: no_options_def num_or_def)
  from writeText_with_stroke [OF a b refl refl refl refl refl refl, of sim_surface "''Hi''"] a
  show ?thesis
    by (simp add: hello_eval red_stroke_def sim_surface_def sim_exec_def sim_measure_def
        configure_def no_options_def num_or_def str_or_def style_or_def truthy_style_def)
qed

text \<open>
  The claim as stated fails on two inputs. With \<open>strokeOptions = {width: 0}\<close> the
  option is present but falsy: the calls on the context hold no \<open>strokeText\<close>, and the
  cursor advances by ascent + descent = 16 although the context's line width is 1. With
  a stroke style present and \<open>maxLines = 1\<close> on a writer that holds one line, the call
  does nothing but \<open>save\<close>.
\<close>

theorem stroke_option_present_counterexample:
  "stroke_width (no_stroke\<lparr>stroke_width := Some 0\<rparr>) \<noteq> None
   \<and> sim_calls (ctx (writeText sim_surface ''Hi'' no_options (no_stroke\<lparr>stroke_width := Some 0\<rparr>) hello))
       = sim_calls (ctx hello) @ [Save, SetFont ''16px serif'', SetFillStyle (Color ''white''),
          SetTextAlign ''start'', SetShadowColor None, SetShadowOffsetX 0, SetShadowOffsetY 0,
          SetShadowBlur 0, SetStrokeStyle None, SetLineWidth (Some 0), SetLineJoin None,
          FillText ''Hi'' 6 33, Restore]
   \<and> lineWidth sim_surface (ctx hello) = 1
   \<and> line (writeText sim_surface ''Hi'' no_options (no_stroke\<lparr>stroke_width := Some 0\<rparr>) hello)
       = line hello + (12 + 4)
   \<and> stroke_style red_stroke \<noteq> None
   \<and> writeText sim_surface ''Hi'' (no_options\<lparr>opt_maxLines := Some 1\<rparr>) red_stroke hello
       = hello\<lparr>ctx := exec sim_surface Save (ctx hello)\<rparr>"
  by (simp add: hello_eval red_stroke_def sim_defs)

section \<open>String conversion and backgrounds\<close>

lemma js_join_snoc:
  "js_join sep (xs @ [x]) = (if xs = [] then x else js_join sep xs @ sep @ x)"
  by (induction sep xs rule: js_join.induct) auto

text \<open>
  Claim C7: \<open>toString()\<close> is always the newline-join of the texts of the recorded
  lines, in the order of the log. The log grows at its end only: the string of a new
  writer is empty, and a \<open>writeText\<close> that is not stopped by \<open>maxLines\<close> appends a
  newline (after a first line) and the text.
\<close>

theorem toString_is_newline_join:
  "toString w = js_join newline (map lr_text (texts w))
   \<and> toString (newCanvasWriter S c) = []
   \<and> toString (writeText S t options strokeOptions w) =
       (if num_or (opt_maxLines options) 0 \<le> real (lineCount w) \<and> 0 < num_or (opt_maxLines options) 0
        then toString w
        else if texts w = [] then t
        else toString w @ newline @ t)"
  by (simp add: toString_def newCanvasWriter_def writeText_def Let_def js_join_snoc)

text \<open>
  Claim C9: \<open>drawBackground\<close> and \<open>drawBackgroundImage\<close> leave the cursor and the
  log unchanged, for every style and image.
\<close>

theorem background_keeps_cursor_and_log:
  "line (drawBackground S sty w) = line w \<and> texts (drawBackground S sty w) = texts w
   \<and> line (drawBackgroundImage S buf w) = line w \<and> texts (drawBackgroundImage S buf w) = texts w"
  by (simp add: drawBackground_def drawBackgroundImage_def)

section \<open>Cloning\<close>

text \<open>What a write that is not stopped appends, with its vertical position.\<close>

lemma writeText_appends:
  assumes "num_or (opt_maxLines options) 0 \<le> 0 \<or> real (lineCount w) < num_or (opt_maxLines options) 0"
  shows "\<exists>x. texts (writeText S t options strokeOptions w) =
           texts w @ [\<lparr>lr_text = t, lr_xSpace = x,
              lr_ySpace = line w
                + actualBoundingBoxAscent (measureText S (configure S options strokeOptions (exec S Save (ctx w))) t)
                + (if truthy_style (stroke_style strokeOptions) \<or> truthy_num (stroke_width strokeOptions)
                      \<or> truthy_str (stroke_join strokeOptions)
                   then lineWidth S (configure S options strokeOptions (exec S Save (ctx w))) else 0)
                + (if line w = 0 then 0 else num_or (opt_spacing options) 0)
                + num_or (opt_y options) 5,
              lr_options = options, lr_strokeOptions = strokeOptions\<rparr>]"
proof -
  from assms have nc: "\<not> (num_or (opt_maxLines options) 0 \<le> real (lineCount w)
      \<and> 0 < num_or (opt_maxLines options) 0)" by auto
  show ?thesis unfolding writeText_def Let_def using nc by simp
qed

lemma cloneFrom_two_records:
  assumes src: "texts source = r1 # r2 # rest"
      and free1: "num_or (opt_maxLines (lr_options r1)) 0 \<le> 0
                  \<or> real (length (texts w)) < num_or (opt_maxLines (lr_options r1)) 0"
      and free2: "num_or (opt_maxLines (lr_options r2)) 0 \<le> 0
                  \<or> real (length (texts w)) + 1 < num_or (opt_maxLines (lr_options r2)) 0"
      and c1: "c1 = configure S (lr_options r1) (lr_strokeOptions r1) (exec S Save (ctx w))"
  shows "cloneFrom S source (Some 2) w =
           writeText S (lr_text r2) (lr_options r2) (lr_strokeOptions r2)
             (writeText S (lr_text r1) (lr_options r1) (lr_strokeOptions r1) w)
       \<and> length (texts (cloneFrom S source (Some 2) w)) = length (texts w) + 2
       \<and> map lr_text (texts (cloneFrom S source (Some 2) w)) = map lr_text (texts w) @ [lr_text r1, lr_text r2]
       \<and> lr_ySpace (texts (cloneFrom S source (Some 2) w) ! length (texts w)) =
           line w + actualBoundingBoxAscent (measureText S c1 (lr_text r1))
             + (if truthy_style (stroke_style (lr_strokeOptions r1))
                   \<or> truthy_num (stroke_width (lr_strokeOptions r1))
                   \<or> truthy_str (stroke_join (lr_strokeOptions r1))
                then lineWidth S c1 else 0)
             + (if line w = 0 then 0 else num_or (opt_spacing (lr_options r1)) 0)
             + num_or (opt_y (lr_options r1)) 5"
proof -
  let ?w1 = "writeText S (lr_text r1) (lr_options r1) (lr_strokeOptions r1) w"
  let ?w2 = "writeText S (lr_text r2) (lr_options r2) (lr_strokeOptions r2) ?w1"
  have sl: "js_slice 0 2 (texts source) = [r1, r2]"
    by (simp add: src js_slice_def)
  then have eq: "cloneFrom S source (Some 2) w = ?w2"
    by (simp add: cloneFrom_def)
  from writeText_appends[of "lr_options r1" w S "lr_text r1" "lr_strokeOptions r1"] free1
  obtain x1 where t1: "texts ?w1 = texts w @ [\<lparr>lr_text = lr_text r1, lr_xSpace = x1,
              lr_ySpace = line w
                + actualBoundingBoxAscent (measureText S c1 (lr_text r1))
                + (if truthy_style (stroke_style (lr_strokeOptions r1)) \<or> truthy_num (stroke_width (lr_strokeOptions r1))
                      \<or> truthy_str (stroke_join (lr_strokeOptions r1))
                   then lineWidth S c1 else 0)
                + (if line w = 0 then 0 else num_or (opt_spacing (lr_options r1)) 0)
                + num_or (opt_y (lr_options r1)) 5,
              lr_options = lr_options r1, lr_strokeOptions = lr_strokeOptions r1\<rparr>]"
    unfolding c1 lineCount_def by blast
  then have l1: "real (lineCount ?w1) = real (length (texts w)) + 1"
    by (simp add: lineCount_def)
  from writeText_appends[of "lr_options r2" ?w1 S "lr_text r2" "lr_strokeOptions r2"] free2 l1
  obtain rec2 where t2: "texts ?w2 = texts ?w1 @ [rec2]" "lr_text rec2 = lr_text r2"
    by auto
  show ?thesis unfolding eq using t1 t2 by (simp add: nth_append)
qed

text \<open>
  Claim C8, as the code has it: \<open>cloneFrom\<close> with limit 2 appends exactly 2 records
  to the destination when the source holds at least 2 lines and neither replayed write
  is stopped by the \<open>maxLines\<close> of its own record. The two lines are the source's
  first two texts, written by \<open>writeText\<close> on the destination: the first one is
  measured on the destination's context and placed from the destination's cursor.
\<close>

theorem cloneFrom_limit_2:
  assumes len: "2 \<le> length (texts source)"
      and r1: "r1 = texts source ! 0" and r2: "r2 = texts source ! 1"
      and free1: "num_or (opt_maxLines (lr_options r1)) 0 \<le> 0
                  \<or> real (length (texts w)) < num_or (opt_maxLines (lr_options r1)) 0"
      and free2: "num_or (opt_maxLines (lr_options r2)) 0 \<le> 0
                  \<or> real (length (texts w)) + 1 < num_or (opt_maxLines (lr_options r2)) 0"
      and c1: "c1 = configure S (lr_options r1) (lr_strokeOptions r1) (exec S Save (ctx w))"
  shows "cloneFrom S source (Some 2) w =
           writeText S (lr_text r2) (lr_options r2) (lr_strokeOptions r2)
             (writeText S (lr_text r1) (lr_options r1) (lr_strokeOptions r1) w)
       \<and> length (texts (cloneFrom S source (Some 2) w)) = length (texts w) + 2
       \<and> map lr_text (texts (cloneFrom S source (Some 2) w)) = map lr_text (texts w) @ [lr_text r1, lr_text r2]
       \<and> lr_ySpace (texts (cloneFrom S source (Some 2) w) ! length (texts w)) =
           line w + actualBoundingBoxAscent (measureText S c1 (lr_text r1))
             + (if truthy_style (stroke_style (lr_strokeOptions r1))
                   \<or> truthy_num (stroke_width (lr_strokeOptions r1))
                   \<or> truthy_str (stroke_join (lr_strokeOptions r1))
                then lineWidth S c1 else 0)
             + (if line w = 0 then 0 else num_or (opt_spacing (lr_options r1)) 0)
             + num_or (opt_y (lr_options r1)) 5"
proof -
  from len obtain a b rest where "texts source = a # b # rest"
    by (cases "texts source"; cases "tl (texts source)") auto
  with r1 r2 have "texts source = r1 # r2 # rest" by simp
  from cloneFrom_two_records[OF this free1 free2 c1] show ?thesis .
qed

theorem cloneFrom_limit_2_witness:
  "2 \<le> length (texts hello3)
   \<and> length (texts (cloneFrom sim_surface hello3 (Some 2) hello)) = length (texts hello) + 2
   \<and> map lr_text (texts (cloneFrom sim_surface hello3 (Some 2) hello)) = [''Hello'', ''Hello'', ''World'']
   \<and> lr_ySpace (texts hello3 ! 0) = 17
   \<and> lr_ySpace (texts (cloneFrom sim_surface hello3 (Some 2) hello) ! length (texts hello)) = 33"
proof -
  have len: "2 \<le> length (texts hello3)" by (simp add: hello3_eval)
  have f1: "num_or (opt_maxLines (lr_options (texts hello3 ! 0))) 0 \<le> 0
            \<or> real (length (texts hello)) < num_or (opt_maxLines (lr_options (texts hello3 ! 0))) 0"
    by (simp add: hello3_eval no_options_def num_or_def)
  have f2: "num_or (opt_maxLines (lr_options (texts hello3 ! 1))) 0 \<le> 0
            \<or> real (length (texts hello)) + 1 < num_or (opt_maxLines (lr_options (texts hello3 ! 1))) 0"
    by (simp add: hello3_eval no_options_def num_or_def)
  note T = cloneFrom_limit_2 [OF len refl refl f1 f2 refl, of sim_surface]
  from T have A: "length (texts (cloneFrom sim_surface hello3 (Some 2) hello)) = length (texts hello) + 2"
    by blast
  from T have "map lr_text (texts (cloneFrom sim_surface hello3 (Some 2) hello))
      = map lr_text (texts hello) @ [lr_text (texts hello3 ! 0), lr_text (texts hello3 ! 1)]"
    by blast
  then have B: "map lr_text (texts (cloneFrom sim_surface hello3 (Some 2) hello))
      = [''Hello'', ''Hello'', ''World'']"
    by (simp add: hello_eval hello3_eval)
  from T have "lr_ySpace (texts (cloneFrom sim_surface hello3 (Some 2) hello) ! length (texts hello))
      = line hello + actualBoundingBoxAscent (measureText sim_surface
            (configure sim_surface (lr_options (texts hello3 ! 0)) (lr_strokeOptions (texts hello3 ! 0))
               (exec sim_surface Save (ctx hello))) (lr_text (texts hello3 ! 0)))
          + (if truthy_style (stroke_style (lr_strokeOptions (texts hello3 ! 0)))
                \<or> truthy_num (stroke_width (lr_strokeOptions (texts hello3 ! 0)))
                \<or> truthy_str (stroke_join (lr_strokeOptions (texts hello3 ! 0)))
             then lineWidth sim_surface
               (configure sim_surface (lr_options (texts hello3 ! 0)) (lr_strokeOptions (texts hello3 ! 0))
                  (exec sim_surface Save (ctx hello))) else 0)
          + (if line hello = 0 then 0 else num_or (opt_spacing (lr_options (texts hello3 ! 0))) 0)
          + num_or (opt_y (lr_options (texts hello3 ! 0))) 5"
    by blast
  also have "\<dots> = 33"
    by (simp add: hello3_eval hello_eval sim_surface_def sim_measure_def no_options_def no_stroke_def
        num_or_def truthy_style_def truthy_num_def truthy_str_def)
  finally have C: "lr_ySpace (texts (cloneFrom sim_surface hello3 (Some 2) hello) ! length (texts hello)) = 33" .
  have D: "lr_ySpace (texts hello3 ! 0) = 17" by (simp add: hello3_eval)
  from len A B C D show ?thesis by blast
qed

text \<open>
  The claim as stated fails for a source with fewer than 2 lines: cloning the
  one-line writer with limit 2 into a new writer appends 1 record.
\<close>

theorem cloneFrom_short_source_counterexample:
  "length (texts hello) = 1
   \<and> length (texts (cloneFrom sim_surface hello (Some 2) fresh_writer)) = length (texts fresh_writer) + 1"
  by (simp add: cloneFrom_def js_slice_def hello_eval sim_defs)

text \<open>
  Claim C10, as the code has it: \<open>cloneFrom\<close> never modifies a source writer that is
  another object than the receiver: its log and cursor are the same after the call.
\<close>

theorem cloneFrom_keeps_other_source:
  "this \<noteq> source \<Longrightarrow> cloneFrom_ref S this source limit h = Some h' \<Longrightarrow>
     objects h' source = objects h source"
  by (auto simp: cloneFrom_ref_def Let_def split: option.splits)

theorem cloneFrom_keeps_other_source_witness:
  "(0::nat) \<noteq> 1
   \<and> (\<exists>h'. cloneFrom_ref sim_surface 0 1 None two_writers = Some h'
            \<and> objects h' 1 = objects two_writers 1
            \<and> map_option (map lr_text \<circ> obj_texts) (objects h' 0) = Some [''Hello''])"
proof -
  obtain h' where h': "cloneFrom_ref sim_surface 0 1 None two_writers = Some h'"
    by (simp add: cloneFrom_ref_def two_writers_def Let_def)
  have "objects h' 1 = objects two_writers 1"
    using cloneFrom_keeps_other_source [of 0 1 sim_surface None two_writers h'] h' by simp
  moreover have "map_option (map lr_text \<circ> obj_texts) (objects h' 0) = Some [''Hello'']"
    using h' by (auto simp: cloneFrom_ref_def two_writers_def Let_def view_def cloneFrom_def
        js_slice_def hello_eval sim_defs)
  ultimately show ?thesis using h' by simp
qed

text \<open>
  The claim as stated fails when the source is the receiver: \<open>w.cloneFrom(w)\<close> on the
  one-line writer leaves it with two lines and the cursor at 32 instead of 16.
\<close>

theorem cloneFrom_self_counterexample:
  "map_option (\<lambda>ob. (map lr_text (obj_texts ob), obj_line ob)) (objects two_writers 1)
      = Some ([''Hello''], 16)
   \<and> (case cloneFrom_ref sim_surface 1 1 None two_writers of None \<Rightarrow> None
       | Some h' \<Rightarrow> map_option (\<lambda>ob. (map lr_text (obj_texts ob), obj_line ob)) (objects h' 1))
      = Some ([''Hello'', ''Hello''], 32)"
  by (simp add: cloneFrom_ref_def two_writers_def Let_def view_def cloneFrom_def
        js_slice_def hello_eval sim_defs)

section \<open>The cursor\<close>

text \<open>Every operation keeps the conditions and does not move the cursor back.\<close>

lemma inv_fold_exec: "surface_inv S I \<Longrightarrow> I c \<Longrightarrow> I (fold (exec S) calls c)"
  by (induction calls arbitrary: c) (auto simp: surface_inv_def)

lemma inv_exec: "surface_inv S I \<Longrightarrow> I c \<Longrightarrow> I (exec S call c)"
  by (simp add: surface_inv_def)

lemma writeText_good:
  assumes S: "surface_inv S I" and g: "good I w" and sp: "nonneg_spacing options"
  shows "good I (writeText S t options strokeOptions w)
       \<and> line w \<le> line (writeText S t options strokeOptions w)"
proof -
  let ?saved = "exec S Save (ctx w)"
  let ?conf = "configure S options strokeOptions ?saved"
  from S g have c0: "I ?saved" by (simp add: good_def inv_exec)
  have c: "I ?conf" unfolding configure_def using c0 by (rule inv_fold_exec[OF S])
  from S c have lw: "0 \<le> lineWidth S ?conf" by (simp add: surface_inv_def)
  from S c have h: "0 \<le> actualBoundingBoxAscent (measureText S ?conf t) + emHeightDescent (measureText S ?conf t)"
    by (simp add: surface_inv_def)
  from sp have s: "0 \<le> (if line w = 0 then 0 else num_or (opt_spacing options) 0)"
    by (simp add: nonneg_spacing_def)
  from g sp have lg: "list_all (\<lambda>r. nonneg_spacing (lr_options r)) (texts w)" "nonneg_spacing options"
    by (simp_all add: good_def log_ok_def)
  show ?thesis
    unfolding writeText_def Let_def good_def log_ok_def
    using c0 c lw h s lg S by (auto simp: inv_exec)
qed

lemma fold_good:
  assumes "\<And>x w. x \<in> set xs \<Longrightarrow> G w \<Longrightarrow> G (f x w) \<and> line w \<le> line (f x w)" and "G w"
  shows "G (fold f xs w) \<and> line w \<le> line (fold f xs w)"
  using assms
proof (induction xs arbitrary: w)
  case Nil
  then show ?case by simp
next
  case (Cons x xs)
  from Cons.prems(1)[of x w] Cons.prems(2) have 1: "G (f x w)" "line w \<le> line (f x w)" by auto
  from Cons.IH[of "f x w"] Cons.prems(1) 1(1)
  have "G (fold f xs (f x w)) \<and> line (f x w) \<le> line (fold f xs (f x w))" by auto
  with 1(2) show ?case by auto
qed

lemma forEach_opt_good:
  assumes "\<And>x w w'. x \<in> set xs \<Longrightarrow> G w \<Longrightarrow> f x w = Some w' \<Longrightarrow> G w' \<and> line w \<le> line w'"
      and "G w" and "forEach_opt f xs w = Some w'"
  shows "G w' \<and> line w \<le> line w'"
  using assms
proof (induction xs arbitrary: w)
  case Nil
  then show ?case by simp
next
  case (Cons x xs)
  from Cons.prems(3) obtain w1 where w1: "f x w = Some w1" "forEach_opt f xs w1 = Some w'"
    by (auto split: option.splits)
  from Cons.prems(1)[of x w w1] Cons.prems(2) w1(1) have 1: "G w1" "line w \<le> line w1" by auto
  from Cons.IH[of w1, OF _ 1(1) w1(2)] Cons.prems(1)
  have "G w' \<and> line w1 \<le> line w'" by auto
  with 1(2) show ?case by auto
qed

lemma writeLines_good:
  assumes "surface_inv S I" "good I w" "nonneg_spacing options"
  shows "good I (writeLines S ls options strokeOptions w)
       \<and> line w \<le> line (writeLines S ls options strokeOptions w)"
  unfolding writeLines_def
proof (rule fold_good[where G = "good I"])
  fix x v
  assume "good I v"
  then show "good I (writeText S x options strokeOptions v)
      \<and> line v \<le> line (writeText S x options strokeOptions v)"
    by (rule writeText_good[OF assms(1) _ assms(3)])
qed (rule assms(2))

lemma set_font_good: "surface_inv S I \<Longrightarrow> good I w \<Longrightarrow> good I (w\<lparr>ctx := exec S call (ctx w)\<rparr>)"
  by (simp add: good_def log_ok_def inv_exec)

lemma writeWrapped_good:
  assumes "surface_inv S I" "good I w" "nonneg_spacing options"
      and "writeWrapped S t maxWidth options strokeOptions w = Some w'"
  shows "good I w' \<and> line w \<le> line w'"
proof -
  let ?w0 = "w\<lparr>ctx := exec S (SetFont (font_of options)) (ctx w)\<rparr>"
  from assms(4) obtain results where "w' = writeLines S (Arr results) options strokeOptions ?w0"
    by (auto simp: writeWrapped_def Let_def split: option.splits)
  moreover have "good I ?w0" by (rule set_font_good[OF assms(1,2)])
  ultimately show ?thesis using writeLines_good[OF assms(1) _ assms(3), of ?w0] by simp
qed

lemma writeWordWrapped_good:
  assumes "surface_inv S I" "good I w" "nonneg_spacing options"
  shows "good I (writeWordWrapped S t maxWidth options strokeOptions w)
       \<and> line w \<le> line (writeWordWrapped S t maxWidth options strokeOptions w)"
proof -
  let ?w0 = "w\<lparr>ctx := exec S (SetFont (font_of options)) (ctx w)\<rparr>"
  have "good I ?w0" by (rule set_font_good[OF assms(1,2)])
  then show ?thesis
    using writeLines_good[OF assms(1) _ assms(3), of ?w0]
    by (simp add: writeWordWrapped_def Let_def)
qed

lemma writeWrappedLines_good:
  assumes "surface_inv S I" "good I w" "nonneg_spacing options"
      and "writeWrappedLines S ls maxWidth options strokeOptions w = Some w'"
  shows "good I w' \<and> line w \<le> line w'"
  using assms(4) unfolding writeWrappedLines_def
  by (rule forEach_opt_good[where G = "good I", rotated 2])
     (auto intro: assms(2) dest: writeWrapped_good[OF assms(1) _ assms(3)])

lemma writeWordWrappedLines_good:
  assumes "surface_inv S I" "good I w" "nonneg_spacing options"
  shows "good I (writeWordWrappedLines S ls maxWidth options strokeOptions w)
       \<and> line w \<le> line (writeWordWrappedLines S ls maxWidth options strokeOptions w)"
  unfolding writeWordWrappedLines_def
proof (rule fold_good[where G = "good I"])
  fix x v
  assume "good I v"
  then show "good I (writeWordWrapped S x maxWidth options strokeOptions v)
      \<and> line v \<le> line (writeWordWrapped S x maxWidth options strokeOptions v)"
    by (rule writeWordWrapped_good[OF assms(1) _ assms(3)])
qed (rule assms(2))

lemma set_js_slice: "set (js_slice a b xs) \<subseteq> set xs"
proof -
  have "set (js_slice a b xs) \<subseteq> set (drop (nat (if a < 0 then max (int (length xs) + a) 0 else min a (int (length xs)))) xs)"
    unfolding js_slice_def Let_def by (rule set_take_subset)
  also have "\<dots> \<subseteq> set xs" by (rule set_drop_subset)
  finally show ?thesis .
qed

lemma cloneFrom_good:
  assumes "surface_inv S I" "good I w" "log_ok source"
  shows "good I (cloneFrom S source limit w) \<and> line w \<le> line (cloneFrom S source limit w)"
  unfolding cloneFrom_def Let_def
proof (rule fold_good[where G = "good I"])
  fix r v
  assume r: "r \<in> set (js_slice 0 (case limit of None \<Rightarrow> int (length (texts source)) | Some l \<Rightarrow> l) (texts source))"
    and v: "good I v"
  from r have "r \<in> set (texts source)" by (rule subsetD[OF set_js_slice])
  with assms(3) have "nonneg_spacing (lr_options r)" by (simp add: log_ok_def list_all_iff)
  from writeText_good[OF assms(1) v this]
  show "good I (writeText S (lr_text r) (lr_options r) (lr_strokeOptions r) v)
      \<and> line v \<le> line (writeText S (lr_text r) (lr_options r) (lr_strokeOptions r) v)" .
qed (rule assms(2))

lemma perform_good:
  assumes "surface_inv S I" "good I w" "op_ok operation" "perform S operation w = Some w'"
  shows "good I w' \<and> line w \<le> line w'"
proof (cases operation)
  case (DrawBackground sty)
  with assms show ?thesis
    by (auto simp: drawBackground_def good_def log_ok_def inv_exec)
next
  case (DrawBackgroundImage buf)
  with assms show ?thesis
    by (auto simp: drawBackgroundImage_def good_def log_ok_def inv_exec)
next
  case (WriteText t options strokeOptions)
  with assms writeText_good[OF assms(1,2), of options t strokeOptions] show ?thesis by auto
next
  case (WriteLines ls options strokeOptions)
  with assms writeLines_good[OF assms(1,2), of options ls strokeOptions] show ?thesis by auto
next
  case (WriteWrapped t maxWidth options strokeOptions)
  with assms writeWrapped_good[OF assms(1,2), of options t maxWidth strokeOptions w'] show ?thesis by auto
next
  case (WriteWrappedLines ls maxWidth options strokeOptions)
  with assms writeWrappedLines_good[OF assms(1,2), of options ls maxWidth strokeOptions w'] show ?thesis by auto
next
  case (WriteWordWrapped t maxWidth options strokeOptions)
  with assms writeWordWrapped_good[OF assms(1,2), of options t maxWidth strokeOptions] show ?thesis by auto
next
  case (WriteWordWrappedLines ls maxWidth options strokeOptions)
  with assms writeWordWrappedLines_good[OF assms(1,2), of options ls maxWidth strokeOptions] show ?thesis by auto
next
  case (Write ls maxWidth options strokeOptions)
  with assms writeWordWrappedLines_good[OF assms(1,2), of options ls maxWidth strokeOptions] show ?thesis
    by (auto simp: write_shortcut_def)
next
  case (CloneFrom source limit)
  with assms cloneFrom_good[OF assms(1,2), of source limit] show ?thesis by auto
next
  case (CloneSelf limit)
  from assms(2) have "log_ok w" by (simp add: good_def)
  with CloneSelf assms cloneFrom_good[OF assms(1,2), of w limit] show ?thesis by auto
next
  case Inspect
  with assms show ?thesis by auto
qed

text \<open>
  Claim C5, as the code has it: the cursor of a new writer is zero, and no sequence of
  operations decreases it, provided that no options value in use (in the calls, and in
  the records of the writers cloned from) has a negative spacing and that the surface
  never reports a negative line width or a negative line height (ascent + em descent).
\<close>

theorem cursor_never_decreases:
  assumes "surface_inv S I" and "I (ctx w)" and "log_ok w" and "list_all op_ok ops"
      and "run S ops w = Some w'"
  shows "line (newCanvasWriter S c) = 0 \<and> line w \<le> line w' \<and> I (ctx w') \<and> log_ok w'"
proof -
  have "good I w' \<and> line w \<le> line w'"
    using assms(5) unfolding run_def
  proof (rule forEach_opt_good[where G = "good I", rotated 2])
    fix x v v'
    assume "x \<in> set ops" "good I v" "perform S x v = Some v'"
    with assms(4) perform_good[OF assms(1), of v x v'] show "good I v' \<and> line v \<le> line v'"
      by (auto simp: list_all_iff)
  next
    show "good I w" using assms(2,3) by (simp add: good_def)
  qed
  then show ?thesis by (simp add: good_def newCanvasWriter_def)
qed

lemma sim_surface_inv: "surface_inv sim_surface sim_inv"
  by (auto simp: surface_inv_def sim_surface_def sim_exec_def sim_inv_def sim_measure_def Let_def
      split: ctx_call.splits list.splits option.splits)

lemma session_eval:
  "map_option (\<lambda>w. (line w, map lr_text (texts w))) (run sim_surface session fresh_writer)
   = Some (106, [''Hello'', ''world'', ''He'', ''ll'', ''o'', ''Hello''])"
  by (simp add: session_def run_def write_shortcut_def writeWordWrappedLines_def writeWordWrapped_def
      writeWrapped_def writeLines_def split_lines_def cloneFrom_def drawBackground_def font_of_def
      red_stroke_def wrap_eval sim_defs)

theorem cursor_never_decreases_witness:
  "\<exists>w'. run sim_surface session fresh_writer = Some w'
       \<and> line fresh_writer = 0 \<and> line fresh_writer \<le> line w' \<and> line w' = 106"
proof -
  from session_eval obtain w' where w': "run sim_surface session fresh_writer = Some w'" "line w' = 106"
    by auto
  have a: "sim_inv (ctx fresh_writer)" by (simp add: sim_inv_def sim_defs)
  have b: "log_ok fresh_writer" by (simp add: log_ok_def sim_defs)
  have c: "list_all op_ok session"
    by (simp add: session_def nonneg_spacing_def no_options_def num_or_def)
  from cursor_never_decreases [OF sim_surface_inv a b c w'(1), of sim_fresh] w'
  show ?thesis by (simp add: fresh_writer_def)
qed

text \<open>
  The claim as stated fails for a negative spacing: after \<open>Hello\<close> the cursor is
  16, and a write with \<open>spacing = -100\<close> moves it to -68.
\<close>

theorem negative_spacing_counterexample:
  "line hello = 16
   \<and> line (writeText sim_surface ''Hi'' (no_options\<lparr>opt_spacing := Some (- 100)\<rparr>) no_stroke hello) = - 68"
  by (simp add: hello_eval sim_defs)

section \<open>Word wrap splits only words that are too wide\<close>

lemma js_split_no_sep_single: "sep \<notin> set t \<Longrightarrow> js_split sep t = [t]"
  by (induction t) auto

lemma js_split_append_sep: "sep \<notin> set a \<Longrightarrow> js_split sep (a @ sep # b) = a # js_split sep b"
  by (induction a) auto

lemma js_split_join:
  "xs \<noteq> [] \<Longrightarrow> (\<forall>x\<in>set xs. sep \<notin> set x) \<Longrightarrow> js_split sep (js_join [sep] xs) = xs"
proof (induction "[sep]" xs rule: js_join.induct)
  case 1
  then show ?case by simp
next
  case (2 x)
  then show ?case by (simp add: js_split_no_sep_single)
next
  case (3 x y ys)
  then show ?case by (simp add: js_split_append_sep)
qed

lemma piece_ok_fragment:
  "piece_ok mw maxWidth text w \<Longrightarrow> mw w > maxWidth \<Longrightarrow> sublist p w \<Longrightarrow> piece_ok mw maxWidth text p"
  unfolding piece_ok_def by (meson sublist_order.order_trans)

lemma splitToFit_pieces:
  shows "(\<forall>w p. P w \<longrightarrow> mw w > maxWidth \<longrightarrow> sublist p w \<longrightarrow> P p) \<Longrightarrow>
         (\<forall>l \<in> set results. \<forall>p \<in> set (js_split CHR '' '' l). P p) \<Longrightarrow>
         (t \<noteq> [] \<longrightarrow> (\<forall>p \<in> set (js_split CHR '' '' t). P p)) \<Longrightarrow>
         (\<forall>l \<in> set (splitToFit mw maxWidth results t). \<forall>p \<in> set (js_split CHR '' '' l). P p)"
proof (induction mw maxWidth results t rule: splitToFit.induct)
  case (1 mw maxWidth results t)
  from 1(3) have closure: "\<And>w p. P w \<Longrightarrow> mw w > maxWidth \<Longrightarrow> sublist p w \<Longrightarrow> P p"
    by blast
  note cl = 1(3) and rs = 1(4) and ts = 1(5)
  show ?case
  proof (cases "t = []")
    case True
    with rs show ?thesis by (subst splitToFit.simps) simp
  next
    case ne: False
    show ?thesis
    proof (cases "mw (js_join '' '' (js_split CHR '' '' t)) > maxWidth")
      case False
      with ne rs ts show ?thesis by (subst splitToFit.simps) simp
    next
      case wide: True
      show ?thesis
      proof (cases "wordLoop mw maxWidth (js_split CHR '' '' t) []")
        case (SingleWord sec rem)
        from wordLoop_inv[OF SingleWord js_split_not_Nil]
        have inv: "sec @ rem = js_split CHR '' '' t" "length sec = 1"
          "mw (js_join '' '' sec) > maxWidth" "length (js_join '' '' sec) > 1"
          by auto
        define w where "w = js_join '' '' sec"
        have sec: "sec = [w]" using inv(2) w_def by (cases sec) auto
        obtain rs' extra where red: "reduceToFit_word mw maxWidth results (js_join '' '' sec) = (rs', extra)"
          by force
        from reduceToFit_word_split[OF inv(3,4) red]
        obtain pre where pre: "rs' = results @ [pre]" "w = pre @ extra" by (auto simp: w_def)
        have win: "w \<in> set (js_split CHR '' '' t)" using inv(1)[symmetric] sec by simp
        then have wns: "CHR '' '' \<notin> set w" by (rule js_split_no_sep)
        from win ne ts have Pw: "P w" by simp
        have ww: "mw w > maxWidth" using inv(3) w_def by simp
        have Ppre: "P pre" by (rule closure[OF Pw ww]) (simp add: pre(2))
        have Pextra: "P extra" by (rule closure[OF Pw ww]) (simp add: pre(2))
        have Pnil: "P []" by (rule closure[OF Pw ww]) simp
        have "js_split CHR '' '' pre = [pre]" using wns pre(2) by (simp add: js_split_no_sep_single)
        with Ppre rs pre(1)
        have A: "\<forall>l \<in> set rs'. \<forall>p \<in> set (js_split CHR '' '' l). P p" by simp
        have remP: "\<forall>p \<in> set rem. P p"
        proof
          fix p assume "p \<in> set rem"
          then have "p \<in> set (js_split CHR '' '' t)" using inv(1)[symmetric] by simp
          with ne ts show "P p" by simp
        qed
        have remns: "\<forall>x \<in> set rem. CHR '' '' \<notin> set x"
        proof
          fix x assume "x \<in> set rem"
          then have "x \<in> set (js_split CHR '' '' t)" using inv(1)[symmetric] by simp
          then show "CHR '' '' \<notin> set x" by (rule js_split_no_sep)
        qed
        have sp: "js_split CHR '' '' (extra @ '' '' @ js_join '' '' rem)
            = extra # js_split CHR '' '' (js_join '' '' rem)"
          using wns pre(2) by (simp add: js_split_append_sep)
        have "\<forall>p \<in> set (js_split CHR '' '' (js_join '' '' rem)). P p"
        proof (cases "rem = []")
          case True
          then show ?thesis using Pnil by simp
        next
          case False
          then show ?thesis using remP remns by (simp add: js_split_join)
        qed
        with sp Pextra
        have B: "extra @ '' '' @ js_join '' '' rem \<noteq> [] \<longrightarrow>
            (\<forall>p \<in> set (js_split CHR '' '' (extra @ '' '' @ js_join '' '' rem)). P p)" by simp
        from 1(1)[OF ne wide SingleWord red[symmetric] cl A B]
        show ?thesis using ne wide SingleWord red by (subst splitToFit.simps) simp
      next
        case (Settled sec rem)
        from wordLoop_inv[OF Settled js_split_not_Nil]
        have inv: "sec @ rem = js_split CHR '' '' t" "sec \<noteq> []" by auto
        have secns: "\<forall>x \<in> set sec. CHR '' '' \<notin> set x"
        proof
          fix x assume "x \<in> set sec"
          then have "x \<in> set (js_split CHR '' '' t)" using inv(1)[symmetric] by simp
          then show "CHR '' '' \<notin> set x" by (rule js_split_no_sep)
        qed
        have remns: "\<forall>x \<in> set rem. CHR '' '' \<notin> set x"
        proof
          fix x assume "x \<in> set rem"
          then have "x \<in> set (js_split CHR '' '' t)" using inv(1)[symmetric] by simp
          then show "CHR '' '' \<notin> set x" by (rule js_split_no_sep)
        qed
        have allP: "\<forall>p \<in> set (sec @ rem). P p" using inv(1) ne ts by simp
        have "js_split CHR '' '' (js_join '' '' sec) = sec"
          using inv(2) secns by (simp add: js_split_join)
        with allP rs
        have A: "\<forall>l \<in> set (results @ [js_join '' '' sec]). \<forall>p \<in> set (js_split CHR '' '' l). P p"
          by simp
        have B: "js_join '' '' rem \<noteq> [] \<longrightarrow> (\<forall>p \<in> set (js_split CHR '' '' (js_join '' '' rem)). P p)"
        proof (cases "rem = []")
          case True
          then show ?thesis by simp
        next
          case False
          then show ?thesis using allP remns by (simp add: js_split_join)
        qed
        from 1(2)[OF ne wide Settled cl A B]
        show ?thesis using ne wide Settled by (subst splitToFit.simps) simp
      qed
    qed
  qed
qed

text \<open>
  Claim C3: every line that the word wrap emits is the space-join of its pieces, and
  each piece is a whole word of the input or a fragment of an input word whose own
  measured width exceeds \<open>maxWidth\<close>.
\<close>

theorem word_wrap_splits_only_wide_words:
  "\<forall>l \<in> set (splitToFit mw maxWidth [] t).
     l = js_join '' '' (js_split CHR '' '' l)
     \<and> (\<forall>p \<in> set (js_split CHR '' '' l). piece_ok mw maxWidth t p)"
proof -
  have "\<forall>l \<in> set (splitToFit mw maxWidth [] t). \<forall>p \<in> set (js_split CHR '' '' l). piece_ok mw maxWidth t p"
    by (rule splitToFit_pieces[where P = "piece_ok mw maxWidth t"])
       (auto intro: piece_ok_fragment simp: piece_ok_def)
  then show ?thesis by (simp add: js_join_split)
qed

lemma split_example:
  "splitToFit (\<lambda>t. 8 * real (length t)) 40 [] ''abcdefg hi'' = [''abcde'', ''fg hi'']"
  by (simp add: wrap_eval)

theorem word_wrap_splits_only_wide_words_witness:
  "splitToFit (\<lambda>t. 8 * real (length t)) 40 [] ''abcdefg hi'' = [''abcde'', ''fg hi'']
   \<and> js_split CHR '' '' ''abcdefg hi'' = [''abcdefg'', ''hi'']
   \<and> piece_ok (\<lambda>t. 8 * real (length t)) 40 ''abcdefg hi'' ''abcde''
   \<and> piece_ok (\<lambda>t. 8 * real (length t)) 40 ''abcdefg hi'' ''fg''
   \<and> piece_ok (\<lambda>t. 8 * real (length t)) 40 ''abcdefg hi'' ''hi''
   \<and> 40 < 8 * real (length ''abcdefg'') \<and> 8 * real (length ''hi'') \<le> 40"
  using word_wrap_splits_only_wide_words [of "\<lambda>t. 8 * real (length t)" 40 "''abcdefg hi''"]
  by (simp add: split_example)

end
